theory Spec2Isabelle
  imports Complex_Main "HOL-Library.Word" "HOL-Library.Char_ord" "HOL-Library.List_Lexorder"
begin

section \<open>The peer table of the Qt client (src/qt/peertablemodel.cpp)\<close>

text \<open>
  The file keeps a local copy of the statistics of every connected peer
  (\<open>PeerTablePriv::cachedNodeStats\<close>), optionally sorted by one column, together with
  a map from node id to row (\<open>PeerTablePriv::mapNodeRows\<close>). The copy is renewed by
  \<open>PeerTablePriv::refreshPeers\<close>, which reads the network layer's node list
  \<open>vNodes\<close> under a try-lock of \<open>cs_vNodes\<close>.
\<close>

subsection \<open>Data\<close>

text \<open>
  Modelled from the spec: the type \<open>NodeId\<close> is declared in net.h, not in
  peertablemodel.cpp; the specification gives it as a 64-bit integer. This file only
  compares node ids (as keys of \<open>std::map\<close>).
\<close>

type_synonym NodeId = "64 word"

text \<open>
  Modelled from the spec: the structure \<open>CNodeStats\<close> is declared in net.h, not in
  peertablemodel.cpp. These are the four fields that this file reads, the fields of the
  specification's PeerRecord. \<open>addrName\<close> and \<open>cleanSubVer\<close> are \<open>std::string\<close>, a
  sequence of bytes. \<open>dPingTime\<close> is a \<open>double\<close>; it is modelled by the real number
  it denotes, so the only operation applied to it, \<open><\<close>, is the numeric comparison (a
  NaN, for which \<open><\<close> is not an ordering, is outside this model).
\<close>

record CNodeStats =
  nodeid :: NodeId
  addrName :: string
  cleanSubVer :: string
  dPingTime :: real

text \<open>\<open>Qt::SortOrder\<close>.\<close>

datatype SortOrder = AscendingOrder | DescendingOrder

text \<open>
  Modelled from the spec: the enumeration \<open>PeerTableModel::ColumnIndex\<close> is declared in
  peertablemodel.h, not in peertablemodel.cpp. The specification names the columns Address,
  SubVersion and Ping; the constructor lists the column titles in this order,
  \<open>columnCount\<close> is 3 and a negative \<open>sortColumn\<close> means unsorted, so the three
  enumerators are 0, 1 and 2.
\<close>

definition Address :: int where
  "Address = 0"

definition Subversion :: int where
  "Subversion = 1"

definition Ping :: int where
  "Ping = 2"

text \<open>
  \<open>class PeerTablePriv\<close> (lines 38 to 100). A row number is a C++ \<open>int\<close>; a
  \<open>QList\<close> never holds more than \<open>INT_MAX\<close> elements, so the counter \<open>row++\<close>
  of line 80 does not wrap and rows are modelled by \<open>int\<close>. \<open>std::map\<close> is a finite
  map; its iteration order is not used.
\<close>

record PeerTablePriv =
  cachedNodeStats :: "CNodeStats list"
  sortColumn :: int
  sortOrder :: SortOrder
  mapNodeRows :: "NodeId \<rightharpoonup> int"

text \<open>
  The network layer as \<open>refreshPeers\<close> sees it at the moment of one call:
  whether \<open>cs_vNodes\<close> is held by another thread, and, for every node of \<open>vNodes\<close> in
  the vector's order, the statistics that \<open>pnode->copyStats(stats)\<close> writes.
\<close>

record Registry =
  cs_vNodes_busy :: bool
  vNodes :: "CNodeStats list"

text \<open>
  What a call does besides changing \<open>PeerTablePriv\<close>: what happens to the lock
  \<open>cs_vNodes\<close>, the three phases of \<open>refreshPeers\<close>, and the two Qt signals of
  \<open>PeerTableModel::refresh\<close>.
\<close>

datatype event =
    TryLockFailed
  | LockAcquired
  | StatsCopied
  | StableSorted
  | IndexBuilt
  | LockReleased
  | LayoutAboutToBeChanged
  | LayoutChanged

subsection \<open>The comparator \<open>NodeLessThan\<close> (lines 16 to 35)\<close>

text \<open>
  \<open>std::string::compare\<close> (C++ standard library): the characters are compared as
  unsigned bytes over the common length (\<open>char_traits<char>::compare\<close>); if they agree
  there, the shorter string is the smaller. The result is negative, zero or positive.
\<close>

fun traits_compare :: "string \<Rightarrow> string \<Rightarrow> int" where
  "traits_compare (c # cs) (d # ds) =
     (if (of_char c :: nat) < of_char d then - 1
      else if (of_char d :: nat) < of_char c then 1
      else traits_compare cs ds)"
| "traits_compare cs ds = 0"

definition string_compare :: "string \<Rightarrow> string \<Rightarrow> int" where
  "string_compare s t =
     (let r = traits_compare s t in
      if r \<noteq> 0 then r
      else if length s < length t then - 1
      else if length t < length s then 1
      else 0)"

text \<open>
  \<open>NodeLessThan::operator()\<close>. The two pointers are swapped for the descending order
  (lines 21 and 22), then the column selects the field (lines 24 to 32); any other
  column falls out of the \<open>switch\<close> to \<open>return false\<close> (line 34).
\<close>

definition NodeLessThan :: "int \<Rightarrow> SortOrder \<Rightarrow> CNodeStats \<Rightarrow> CNodeStats \<Rightarrow> bool" where
  "NodeLessThan column order left right =
     (let (pLeft, pRight) = (if order = DescendingOrder then (right, left) else (left, right)) in
      if column = Address then string_compare (addrName pLeft) (addrName pRight) < 0
      else if column = Subversion then string_compare (cleanSubVer pLeft) (cleanSubVer pRight) < 0
      else if column = Ping then dPingTime pLeft < dPingTime pRight
      else False)"

subsection \<open>\<open>qStableSort\<close>\<close>

text \<open>
  Modelled from the spec: \<open>qStableSort\<close> is a function of the Qt library (QtAlgorithms),
  whose code is not in peertablemodel.cpp. The specification asks for a stable,
  merge-based sort. The model is the top-down merge sort: the range is cut at
  \<open>span / 2\<close>, both halves are sorted, and the merge takes the element of the right
  half only when it is strictly less than the element of the left half. For a comparator
  that is a strict weak ordering, as \<open>qStableSort\<close> requires, the result of a stable
  sort is determined by its input, so every stable sort computes this function.
\<close>

fun merge_runs :: "('a \<Rightarrow> 'a \<Rightarrow> bool) \<Rightarrow> 'a list \<Rightarrow> 'a list \<Rightarrow> 'a list" where
  "merge_runs lt [] ys = ys"
| "merge_runs lt xs [] = xs"
| "merge_runs lt (x # xs) (y # ys) =
     (if lt y x then y # merge_runs lt (x # xs) ys
      else x # merge_runs lt xs (y # ys))"

function qStableSort :: "('a \<Rightarrow> 'a \<Rightarrow> bool) \<Rightarrow> 'a list \<Rightarrow> 'a list" where
  "qStableSort lt xs =
     (if length xs < 2 then xs
      else merge_runs lt
             (qStableSort lt (take (length xs div 2) xs))
             (qStableSort lt (drop (length xs div 2) xs)))"
  by pat_completeness auto
termination
  by (relation "measure (\<lambda>(lt, xs). length xs)") auto

declare qStableSort.simps [simp del]

subsection \<open>\<open>PeerTablePriv\<close>: refresh, size and index\<close>

text \<open>
  The loop of lines 63 to 68: every node's statistics are appended to the cache, in the
  order of \<open>vNodes\<close>.
\<close>

fun copy_stats :: "CNodeStats list \<Rightarrow> CNodeStats list \<Rightarrow> CNodeStats list" where
  "copy_stats [] cached = cached"
| "copy_stats (pnode # rest) cached = copy_stats rest (cached @ [pnode])"

text \<open>
  \<open>std::map::insert\<close> does nothing when the key is already present.
\<close>

definition map_insert :: "NodeId \<times> int \<Rightarrow> (NodeId \<rightharpoonup> int) \<Rightarrow> (NodeId \<rightharpoonup> int)" where
  "map_insert kv m = (case m (fst kv) of None \<Rightarrow> m(fst kv \<mapsto> snd kv) | Some r \<Rightarrow> m)"

text \<open>The loop of lines 77 to 81, with the counter \<open>row\<close>.\<close>

fun build_index :: "CNodeStats list \<Rightarrow> int \<Rightarrow> (NodeId \<rightharpoonup> int) \<Rightarrow> (NodeId \<rightharpoonup> int)" where
  "build_index [] row m = m"
| "build_index (stats # rest) row m = build_index rest (row + 1) (map_insert (nodeid stats, row) m)"

text \<open>
  \<open>PeerTablePriv::refreshPeers\<close> (lines 51 to 82).

  \<open>TRY_LOCK\<close> is a macro of sync.h, not of peertablemodel.cpp.
  \<open>TRY_LOCK(cs_vNodes, lockNodes)\<close> on line 52 declares the lock guard \<open>lockNodes\<close>
  and tries to take \<open>cs_vNodes\<close> without waiting. The declaration stands in the body of
  the function, before the block of lines 53 to 69 opens (the block tests
  \<open>lockNodes\<close> on line 54, so the name belongs to the enclosing scope). No statement
  gives the lock back, so the guard does when it goes out of scope: at the closing brace
  of the function on line 82, after the sort and after the index has been built. On the
  early return of line 57 nothing was taken.
\<close>

definition refreshPeers :: "Registry \<Rightarrow> PeerTablePriv \<Rightarrow> PeerTablePriv \<times> event list" where
  "refreshPeers reg p =
     (if cs_vNodes_busy reg then (p, [TryLockFailed])
      else
        let p1 = p\<lparr>cachedNodeStats := []\<rparr>;
            p2 = p1\<lparr>cachedNodeStats := copy_stats (vNodes reg) (cachedNodeStats p1)\<rparr>;
            (p3, sort_events) =
              (if sortColumn p2 \<ge> 0
               then (p2\<lparr>cachedNodeStats :=
                          qStableSort (NodeLessThan (sortColumn p2) (sortOrder p2)) (cachedNodeStats p2)\<rparr>,
                     [StableSorted])
               else (p2, []));
            p4 = p3\<lparr>mapNodeRows := build_index (cachedNodeStats p3) 0 Map.empty\<rparr>
        in (p4, [LockAcquired, StatsCopied] @ sort_events @ [IndexBuilt, LockReleased]))"

text \<open>\<open>PeerTablePriv::size\<close> (lines 84 to 87).\<close>

definition size_priv :: "PeerTablePriv \<Rightarrow> int" where
  "size_priv p = int (length (cachedNodeStats p))"

text \<open>
  \<open>PeerTablePriv::index\<close> (lines 89 to 98): a pointer to the row, or the null pointer.
\<close>

definition index :: "PeerTablePriv \<Rightarrow> int \<Rightarrow> CNodeStats option" where
  "index p idx =
     (if idx \<ge> 0 \<and> idx < int (length (cachedNodeStats p))
      then Some (cachedNodeStats p ! nat idx)
      else None)"

subsection \<open>\<open>PeerTableModel\<close>\<close>

text \<open>\<open>PeerTableModel::getNodeStats\<close> (lines 199 to 201).\<close>

definition getNodeStats :: "PeerTablePriv \<Rightarrow> int \<Rightarrow> CNodeStats option" where
  "getNodeStats p idx = index p idx"

text \<open>
  \<open>PeerTableModel::refresh\<close> (lines 203 to 208). The function returns \<open>void\<close>: its
  whole effect is the new \<open>PeerTablePriv\<close> and the events.
\<close>

definition refresh :: "Registry \<Rightarrow> PeerTablePriv \<Rightarrow> PeerTablePriv \<times> event list" where
  "refresh reg p =
     (let (p', events) = refreshPeers reg p
      in (p', [LayoutAboutToBeChanged] @ events @ [LayoutChanged]))"

text \<open>\<open>PeerTableModel::getRowByNodeId\<close> (lines 210 to 217).\<close>

definition getRowByNodeId :: "PeerTablePriv \<Rightarrow> NodeId \<Rightarrow> int" where
  "getRowByNodeId p nid = (case mapNodeRows p nid of None \<Rightarrow> - 1 | Some row \<Rightarrow> row)"

text \<open>\<open>PeerTableModel::sort\<close> (lines 219 to 224).\<close>

definition sort_model :: "Registry \<Rightarrow> int \<Rightarrow> SortOrder \<Rightarrow> PeerTablePriv \<Rightarrow> PeerTablePriv \<times> event list" where
  "sort_model reg column order p = refresh reg (p\<lparr>sortColumn := column, sortOrder := order\<rparr>)"

text \<open>
  The constructor (lines 102 to 116): \<open>new PeerTablePriv()\<close> value-initialises the
  object (empty list, empty map, zero for the two scalars, and zero is
  \<open>Qt::AscendingOrder\<close>), line 108 sets \<open>sortColumn\<close> to \<open>-1\<close>, and line 115 loads the
  initial data with \<open>refresh()\<close>.
\<close>

definition new_PeerTablePriv :: PeerTablePriv where
  "new_PeerTablePriv =
     \<lparr>cachedNodeStats = [], sortColumn = 0, sortOrder = AscendingOrder, mapNodeRows = Map.empty\<rparr>"

definition PeerTableModel :: "Registry \<Rightarrow> PeerTablePriv \<times> event list" where
  "PeerTableModel reg = refresh reg (new_PeerTablePriv\<lparr>sortColumn := - 1\<rparr>)"

text \<open>
  The calls that change the model after its construction, each with the state of the
  network layer it meets: the timer's and the user's \<open>refresh()\<close>, and \<open>sort()\<close>.
\<close>

datatype call = Refresh Registry | Sort Registry int SortOrder

fun do_call :: "call \<Rightarrow> PeerTablePriv \<Rightarrow> PeerTablePriv" where
  "do_call (Refresh reg) p = fst (refresh reg p)"
| "do_call (Sort reg column order) p = fst (sort_model reg column order p)"

fun run_calls :: "call list \<Rightarrow> PeerTablePriv \<Rightarrow> PeerTablePriv" where
  "run_calls [] p = p"
| "run_calls (c # cs) p = run_calls cs (do_call c p)"

subsection \<open>Notions used by the properties\<close>

text \<open>
  Two records compare equal under a comparator when neither is less than the other.
\<close>

definition tied_wrt :: "('a \<Rightarrow> 'a \<Rightarrow> bool) \<Rightarrow> 'a \<Rightarrow> 'a \<Rightarrow> bool" where
  "tied_wrt lt a b = (\<not> lt a b \<and> \<not> lt b a)"

definition tied :: "int \<Rightarrow> SortOrder \<Rightarrow> CNodeStats \<Rightarrow> CNodeStats \<Rightarrow> bool" where
  "tied column order a b = tied_wrt (NodeLessThan column order) a b"

text \<open>
  What \<open>qStableSort\<close> asks of its comparator: a strict weak ordering.
\<close>

definition strict_weak_order :: "('a \<Rightarrow> 'a \<Rightarrow> bool) \<Rightarrow> bool" where
  "strict_weak_order lt =
     ((\<forall>a. \<not> lt a a) \<and>
      (\<forall>a b c. lt a b \<longrightarrow> lt b c \<longrightarrow> lt a c) \<and>
      (\<forall>a b c. \<not> lt a b \<longrightarrow> \<not> lt b c \<longrightarrow> \<not> lt a c))"

abbreviation ascending :: "('a \<Rightarrow> 'a \<Rightarrow> bool) \<Rightarrow> 'a list \<Rightarrow> bool" where
  "ascending lt \<equiv> sorted_wrt (\<lambda>a b. \<not> lt b a)"

text \<open>
  The specification's "case-sensitive lexicographic comparison": the strings are compared
  character by character, each character by its code (so an upper-case letter is not
  identified with its lower-case letter), and a proper prefix comes first. This is
  \<open>lexord\<close> over the order of the character codes.
\<close>

definition byte_less :: "(char \<times> char) set" where
  "byte_less = {(c, d). (of_char c :: nat) < of_char d}"

text \<open>
  What a caller of \<open>refresh()\<close> has after the call: the function returns \<open>void\<close>, so
  the model's state and the Qt signals that were emitted.
\<close>

definition caller_view :: "PeerTablePriv \<times> event list \<Rightarrow> PeerTablePriv \<times> event list" where
  "caller_view r =
     (fst r, filter (\<lambda>e. e = LayoutAboutToBeChanged \<or> e = LayoutChanged) (snd r))"

text \<open>The index is the one built from the cached records.\<close>

definition index_consistent :: "PeerTablePriv \<Rightarrow> bool" where
  "index_consistent p = (mapNodeRows p = build_index (cachedNodeStats p) 0 Map.empty)"

subsection \<open>Example data\<close>

definition peer1 :: CNodeStats where
  "peer1 = \<lparr>nodeid = 1, addrName = ''b'', cleanSubVer = ''/Satoshi:0.9.1/'', dPingTime = 1 / 4\<rparr>"

definition peer2 :: CNodeStats where
  "peer2 = \<lparr>nodeid = 2, addrName = ''a'', cleanSubVer = ''/Satoshi:0.9.1/'', dPingTime = 1 / 4\<rparr>"

definition peer3 :: CNodeStats where
  "peer3 = \<lparr>nodeid = 3, addrName = ''Z'', cleanSubVer = ''/Satoshi:0.8.6/'', dPingTime = 1 / 8\<rparr>"

definition reg_free :: Registry where
  "reg_free = \<lparr>cs_vNodes_busy = False, vNodes = [peer1, peer2]\<rparr>"

definition reg_busy :: Registry where
  "reg_busy = \<lparr>cs_vNodes_busy = True, vNodes = [peer1, peer2]\<rparr>"

definition reg_three :: Registry where
  "reg_three = \<lparr>cs_vNodes_busy = False, vNodes = [peer1, peer2, peer3]\<rparr>"

section \<open>Auxiliary facts\<close>

lemma string_compare_lexord:
  "string_compare s t < 0 \<longleftrightarrow> (s, t) \<in> lexord {(c, d). (of_char c :: nat) < of_char d}"
  apply (induction s t rule: traits_compare.induct)
  apply (auto simp: string_compare_def Let_def neq_Nil_conv split: if_splits)
  done

lemma string_compare_less: "string_compare s t < 0 \<longleftrightarrow> s < t"
  by (simp add: string_compare_lexord list_less_def less_char_def)

lemma set_merge_runs: "set (merge_runs lt xs ys) = set xs \<union> set ys"
  by (induction lt xs ys rule: merge_runs.induct) auto

lemma swo_irrefl: "strict_weak_order lt \<Longrightarrow> \<not> lt a a"
  by (simp add: strict_weak_order_def)

lemma swo_trans: "strict_weak_order lt \<Longrightarrow> lt a b \<Longrightarrow> lt b c \<Longrightarrow> lt a c"
  unfolding strict_weak_order_def by blast

lemma swo_negtrans: "strict_weak_order lt \<Longrightarrow> \<not> lt a b \<Longrightarrow> \<not> lt b c \<Longrightarrow> \<not> lt a c"
  unfolding strict_weak_order_def by blast

lemma swo_asym: "strict_weak_order lt \<Longrightarrow> lt a b \<Longrightarrow> \<not> lt b a"
  using swo_irrefl swo_trans by metis

lemma ascending_merge_runs:
  "strict_weak_order lt \<Longrightarrow> ascending lt xs \<Longrightarrow> ascending lt ys \<Longrightarrow>
   ascending lt (merge_runs lt xs ys)"
proof (induction lt xs ys rule: merge_runs.induct)
  case (3 lt x xs y ys)
  show ?case
  proof (cases "lt y x")
    case True
    have "\<not> lt z y" if "z \<in> set (x # xs)" for z
    proof -
      have "\<not> lt z x" using that "3.prems"(1,2) swo_irrefl[of lt x] by auto
      moreover have "\<not> lt x y" using True "3.prems"(1) swo_asym by metis
      ultimately show ?thesis using "3.prems"(1) swo_negtrans by metis
    qed
    with True 3 show ?thesis by (auto simp: set_merge_runs)
  next
    case False
    have "\<not> lt z x" if "z \<in> set (y # ys)" for z
    proof (cases "z = y")
      case True then show ?thesis using False by simp
    next
      case neq: False
      then have "\<not> lt z y" using that "3.prems"(3) by auto
      then show ?thesis using False "3.prems"(1) swo_negtrans by metis
    qed
    with False 3 show ?thesis by (auto simp: set_merge_runs)
  qed
qed simp_all

lemma filter_tied_merge_runs:
  "strict_weak_order lt \<Longrightarrow> ascending lt xs \<Longrightarrow> ascending lt ys \<Longrightarrow>
   filter (tied_wrt lt a) (merge_runs lt xs ys) =
   filter (tied_wrt lt a) xs @ filter (tied_wrt lt a) ys"
proof (induction lt xs ys rule: merge_runs.induct)
  case (3 lt x xs y ys)
  show ?case
  proof (cases "lt y x")
    case True
    note yx = True
    show ?thesis
    proof (cases "tied_wrt lt a y")
      case True
      have "\<not> tied_wrt lt a z" if "z \<in> set (x # xs)" for z
      proof
        assume tz: "tied_wrt lt a z"
        have "\<not> lt z x" using that "3.prems"(1,2) swo_irrefl[of lt x] by auto
        then have "lt y z" using yx "3.prems"(1) swo_negtrans by metis
        moreover have "\<not> lt y z"
          using True tz "3.prems"(1) swo_negtrans[of lt y a z] by (simp add: tied_wrt_def)
        ultimately show False by simp
      qed
      then have "filter (tied_wrt lt a) (x # xs) = []"
        by (simp only: filter_empty_conv) blast
      with yx True 3 show ?thesis by simp
    next
      case False
      with yx 3 show ?thesis by simp
    qed
  next
    case False
    with 3 show ?thesis by simp
  qed
qed simp_all

lemma qStableSort_short: "length xs < 2 \<Longrightarrow> qStableSort lt xs = xs"
  by (subst qStableSort.simps) simp

lemma qStableSort_split:
  "\<not> length xs < 2 \<Longrightarrow>
   qStableSort lt xs =
     merge_runs lt (qStableSort lt (take (length xs div 2) xs))
                   (qStableSort lt (drop (length xs div 2) xs))"
  by (subst qStableSort.simps) simp

lemma ascending_short: "length xs < 2 \<Longrightarrow> ascending lt xs"
  by (cases xs) auto

lemma ascending_qStableSort:
  "strict_weak_order lt \<Longrightarrow> ascending lt (qStableSort lt xs)"
proof (induction lt xs rule: qStableSort.induct)
  case (1 lt xs)
  show ?case
  proof (cases "length xs < 2")
    case True
    then show ?thesis by (simp add: qStableSort_short ascending_short)
  next
    case False
    then show ?thesis using 1 by (simp add: qStableSort_split ascending_merge_runs)
  qed
qed

lemma filter_tied_qStableSort:
  "strict_weak_order lt \<Longrightarrow>
   filter (tied_wrt lt a) (qStableSort lt xs) = filter (tied_wrt lt a) xs"
proof (induction lt xs rule: qStableSort.induct)
  case (1 lt xs)
  show ?case
  proof (cases "length xs < 2")
    case True
    then show ?thesis by (simp add: qStableSort_short)
  next
    case False
    have "filter (tied_wrt lt a) (qStableSort lt xs) =
          filter (tied_wrt lt a) (take (length xs div 2) xs) @
          filter (tied_wrt lt a) (drop (length xs div 2) xs)"
      using False 1 by (simp add: qStableSort_split filter_tied_merge_runs ascending_qStableSort)
    also have "\<dots> = filter (tied_wrt lt a) (take (length xs div 2) xs @ drop (length xs div 2) xs)"
      by (simp only: filter_append)
    finally show ?thesis by simp
  qed
qed

lemma set_qStableSort: "set (qStableSort lt xs) = set xs"
proof (induction lt xs rule: qStableSort.induct)
  case (1 lt xs)
  show ?case
  proof (cases "length xs < 2")
    case True
    then show ?thesis by (simp add: qStableSort_short)
  next
    case False
    have "set (qStableSort lt xs) =
          set (take (length xs div 2) xs) \<union> set (drop (length xs div 2) xs)"
      using False 1 by (simp add: qStableSort_split set_merge_runs)
    also have "\<dots> = set (take (length xs div 2) xs @ drop (length xs div 2) xs)"
      by (simp only: set_append)
    finally show ?thesis by simp
  qed
qed

lemma qStableSort_pair:
  "qStableSort lt [a, b] = (if lt b a then [b, a] else [a, b])"
  by (simp add: qStableSort_split qStableSort_short)

lemma tied_eq: "tied column order a = tied_wrt (NodeLessThan column order) a"
  by (rule ext) (simp add: tied_def)

lemma swo_NodeLessThan: "strict_weak_order (NodeLessThan column order)"
  unfolding strict_weak_order_def NodeLessThan_def
  by (cases order) (auto simp: string_compare_less)

lemma copy_stats_append: "copy_stats ps cached = cached @ ps"
  by (induction ps arbitrary: cached) auto

lemma map_insert_apply:
  "map_insert (k, v) m k' = (if k' = k \<and> m k = None then Some v else m k')"
  by (auto simp: map_insert_def split: option.splits)

lemma build_index_keep: "m k = Some r \<Longrightarrow> build_index xs row m k = Some r"
proof (induction xs arbitrary: row m)
  case Nil
  then show ?case by simp
next
  case (Cons s rest)
  have "map_insert (nodeid s, row) m k = Some r"
    using Cons.prems by (auto simp: map_insert_apply)
  then show ?case by (simp add: Cons.IH)
qed

lemma build_index_absent: "k \<notin> nodeid ` set xs \<Longrightarrow> build_index xs row m k = m k"
  by (induction xs arbitrary: row m) (auto simp: map_insert_apply)

lemma build_index_present:
  "m k = None \<Longrightarrow> k \<in> nodeid ` set xs \<Longrightarrow>
   \<exists>i<length xs. build_index xs row m k = Some (row + int i) \<and> nodeid (xs ! i) = k"
proof (induction xs arbitrary: row m)
  case Nil
  then show ?case by simp
next
  case (Cons s rest)
  show ?case
  proof (cases "nodeid s = k")
    case True
    then have "map_insert (nodeid s, row) m k = Some row"
      using Cons.prems(1) by (simp add: map_insert_apply)
    then have "build_index (s # rest) row m k = Some (row + int 0)"
      by (simp add: build_index_keep)
    with True show ?thesis by (intro exI[of _ 0]) simp
  next
    case False
    then have none: "map_insert (nodeid s, row) m k = None"
      using Cons.prems(1) by (simp add: map_insert_apply)
    have "k \<in> nodeid ` set rest" using False Cons.prems(2) by auto
    from Cons.IH[where m = "map_insert (nodeid s, row) m" and row = "row + 1", OF none this]
    obtain i where i: "i < length rest"
      "build_index rest (row + 1) (map_insert (nodeid s, row) m) k = Some (row + 1 + int i)"
      "nodeid (rest ! i) = k" by blast
    then show ?thesis by (intro exI[of _ "Suc i"]) simp
  qed
qed

lemma consistent_lookup:
  assumes "index_consistent p" and "x \<in> nodeid ` set (cachedNodeStats p)"
  shows "map_option nodeid (index p (getRowByNodeId p x)) = Some x"
proof -
  from build_index_present[of Map.empty x "cachedNodeStats p" 0] assms(2)
  obtain i where "i < length (cachedNodeStats p)"
    "build_index (cachedNodeStats p) 0 Map.empty x = Some (int i)"
    "nodeid (cachedNodeStats p ! i) = x" by auto
  with assms(1) show ?thesis
    by (simp add: index_consistent_def getRowByNodeId_def index_def)
qed

lemma consistent_missing:
  assumes "index_consistent p" and "x \<notin> nodeid ` set (cachedNodeStats p)"
  shows "getRowByNodeId p x = - 1"
  using assms by (simp add: index_consistent_def getRowByNodeId_def build_index_absent)

lemma refreshPeers_busy: "cs_vNodes_busy reg \<Longrightarrow> refreshPeers reg p = (p, [TryLockFailed])"
  by (simp add: refreshPeers_def)

lemma refreshPeers_free_records:
  "\<not> cs_vNodes_busy reg \<Longrightarrow>
   cachedNodeStats (fst (refreshPeers reg p)) =
     (if sortColumn p \<ge> 0 then qStableSort (NodeLessThan (sortColumn p) (sortOrder p)) (vNodes reg)
      else vNodes reg)"
  by (simp add: refreshPeers_def copy_stats_append Let_def)

lemma refreshPeers_free_events:
  "\<not> cs_vNodes_busy reg \<Longrightarrow>
   snd (refreshPeers reg p) =
     [LockAcquired, StatsCopied] @ (if sortColumn p \<ge> 0 then [StableSorted] else []) @
     [IndexBuilt, LockReleased]"
  by (simp add: refreshPeers_def Let_def)

lemma refreshPeers_free_consistent:
  "\<not> cs_vNodes_busy reg \<Longrightarrow> index_consistent (fst (refreshPeers reg p))"
  by (simp add: refreshPeers_def index_consistent_def Let_def)

lemma refreshPeers_sort_fields:
  "sortColumn (fst (refreshPeers reg p)) = sortColumn p \<and>
   sortOrder (fst (refreshPeers reg p)) = sortOrder p"
  by (simp add: refreshPeers_def Let_def)

lemma fst_refresh: "fst (refresh reg p) = fst (refreshPeers reg p)"
  by (simp add: refresh_def split: prod.splits)

lemma snd_refresh:
  "snd (refresh reg p) = [LayoutAboutToBeChanged] @ snd (refreshPeers reg p) @ [LayoutChanged]"
  by (simp add: refresh_def split: prod.splits)

lemma refreshPeers_consistent:
  "index_consistent p \<Longrightarrow> index_consistent (fst (refreshPeers reg p))"
  by (cases "cs_vNodes_busy reg") (simp_all add: refreshPeers_busy refreshPeers_free_consistent)

lemma do_call_consistent: "index_consistent p \<Longrightarrow> index_consistent (do_call c p)"
proof (cases c)
  case (Refresh reg)
  assume "index_consistent p"
  then show ?thesis using Refresh by (simp add: fst_refresh refreshPeers_consistent)
next
  case (Sort reg column order)
  assume "index_consistent p"
  then have "index_consistent (p\<lparr>sortColumn := column, sortOrder := order\<rparr>)"
    by (simp add: index_consistent_def)
  then show ?thesis using Sort by (simp add: sort_model_def fst_refresh refreshPeers_consistent)
qed

lemma run_calls_consistent: "index_consistent p \<Longrightarrow> index_consistent (run_calls cs p)"
  by (induction cs arbitrary: p) (auto simp: do_call_consistent)

lemma PeerTableModel_consistent: "index_consistent (fst (PeerTableModel reg))"
proof -
  have "index_consistent (new_PeerTablePriv\<lparr>sortColumn := - 1\<rparr>)"
    by (simp add: index_consistent_def new_PeerTablePriv_def)
  then show ?thesis by (simp add: PeerTableModel_def fst_refresh refreshPeers_consistent)
qed

lemma reachable_consistent: "index_consistent (run_calls cs (fst (PeerTableModel reg)))"
  by (simp add: run_calls_consistent PeerTableModel_consistent)

section \<open>Properties of the peer table\<close>

subsection \<open>Refresh while \<open>cs_vNodes\<close> is held elsewhere\<close>

text \<open>
  Claim C1, as the code has it. A \<open>refresh()\<close> that meets a busy \<open>cs_vNodes\<close> makes
  one failed attempt to take the lock and waits for nothing; it leaves the whole of
  \<open>PeerTablePriv\<close> as it was: the cached records, the index from node id to row and the
  sort settings. The function returns \<open>void\<close>, and the two layout signals are emitted as in
  every call.
\<close>

theorem refresh_busy_unchanged:
  "cs_vNodes_busy reg \<Longrightarrow>
   refresh reg p = (p, [LayoutAboutToBeChanged, TryLockFailed, LayoutChanged])"
  by (simp add: refresh_def refreshPeers_busy)

theorem refresh_busy_unchanged_witness:
  "cs_vNodes_busy reg_busy \<and>
   refresh reg_busy (fst (PeerTableModel reg_free)) =
     (fst (PeerTableModel reg_free), [LayoutAboutToBeChanged, TryLockFailed, LayoutChanged]) \<and>
   map nodeid (cachedNodeStats (fst (refresh reg_busy (fst (PeerTableModel reg_free))))) = [1, 2]"
proof -
  have busy: "cs_vNodes_busy reg_busy" by (simp add: reg_busy_def)
  have "map nodeid (cachedNodeStats (fst (PeerTableModel reg_free))) = [1, 2]"
    by (simp add: PeerTableModel_def fst_refresh refreshPeers_free_records reg_free_def
        new_PeerTablePriv_def peer1_def peer2_def)
  then show ?thesis
    using busy refresh_busy_unchanged [OF busy, of "fst (PeerTableModel reg_free)"] by simp
qed

text \<open>
  Claim C1 as stated also says that the call signals "skipped". Nothing does: for a model
  that already shows the two peers of the registry, the skipped call and the successful call
  leave the caller with the same state and the same signals.
\<close>

theorem refresh_skipped_like_refreshed:
  "cs_vNodes_busy reg_busy \<and> \<not> cs_vNodes_busy reg_free \<and>
   caller_view (refresh reg_busy (fst (PeerTableModel reg_free))) =
   caller_view (refresh reg_free (fst (PeerTableModel reg_free)))"
  by (simp add: caller_view_def fst_refresh snd_refresh refreshPeers_def PeerTableModel_def
      new_PeerTablePriv_def reg_busy_def reg_free_def copy_stats_append Let_def)

subsection \<open>How long \<open>cs_vNodes\<close> is held\<close>

text \<open>
  Claim C2 says that the lock is given back after the statistics have been copied, before the
  sort and before the index is built. In the code the guard \<open>lockNodes\<close> lives until
  \<open>refreshPeers\<close> returns: with two peers and the sort column Address, the sort and the
  index build both happen between taking the lock and giving it back.
\<close>

theorem refreshPeers_sorts_under_lock:
  "snd (refreshPeers reg_free (new_PeerTablePriv\<lparr>sortColumn := Address\<rparr>)) =
     [LockAcquired, StatsCopied, StableSorted, IndexBuilt, LockReleased]"
  by (simp add: refreshPeers_free_events reg_free_def new_PeerTablePriv_def Address_def)

subsection \<open>Rows and node ids\<close>

text \<open>
  Claim C3. After the constructor and any sequence of \<open>refresh()\<close> and \<open>sort()\<close> calls,
  each meeting a free or a busy lock, the index is the one built from the cached records,
  and for every node id \<open>x\<close> among the cached records \<open>getRowByNodeId x\<close> is a row at
  which \<open>index\<close> finds a record, whose node id is \<open>x\<close>.
\<close>

theorem snapshot_rows_consistent:
  "index_consistent (run_calls calls (fst (PeerTableModel reg0))) \<and>
   (\<forall>x \<in> nodeid ` set (cachedNodeStats (run_calls calls (fst (PeerTableModel reg0)))).
      \<exists>stats. index (run_calls calls (fst (PeerTableModel reg0)))
                 (getRowByNodeId (run_calls calls (fst (PeerTableModel reg0))) x) = Some stats \<and>
              nodeid stats = x)"
proof -
  let ?p = "run_calls calls (fst (PeerTableModel reg0))"
  have c: "index_consistent ?p" by (rule reachable_consistent)
  have "\<exists>stats. index ?p (getRowByNodeId ?p x) = Some stats \<and> nodeid stats = x"
    if "x \<in> nodeid ` set (cachedNodeStats ?p)" for x
    using consistent_lookup [OF c that] by (auto simp: map_option_case split: option.splits)
  with c show ?thesis by blast
qed

theorem snapshot_rows_consistent_witness:
  "(2 :: NodeId) \<in> nodeid ` set (cachedNodeStats
      (run_calls [Sort reg_three Address AscendingOrder, Refresh reg_busy]
        (fst (PeerTableModel reg_free)))) \<and>
   getRowByNodeId (run_calls [Sort reg_three Address AscendingOrder, Refresh reg_busy]
        (fst (PeerTableModel reg_free))) 2 = 1 \<and>
   (\<exists>stats. index (run_calls [Sort reg_three Address AscendingOrder, Refresh reg_busy]
                (fst (PeerTableModel reg_free)))
              (getRowByNodeId (run_calls [Sort reg_three Address AscendingOrder, Refresh reg_busy]
                (fst (PeerTableModel reg_free))) 2) = Some stats \<and>
            nodeid stats = 2)"
proof -
  let ?p = "run_calls [Sort reg_three Address AscendingOrder, Refresh reg_busy]
      (fst (PeerTableModel reg_free))"
  have "map nodeid (cachedNodeStats ?p) = [3, 2, 1]"
    by (simp add: sort_model_def fst_refresh refreshPeers_busy refreshPeers_free_records
        reg_three_def reg_busy_def qStableSort_split qStableSort_short NodeLessThan_def
        Address_def string_compare_def peer1_def peer2_def peer3_def)
  then have "set (map nodeid (cachedNodeStats ?p)) = {3, 2, 1}" by simp
  then have mem: "2 \<in> nodeid ` set (cachedNodeStats ?p)" by (simp only: set_map) simp
  have row: "getRowByNodeId ?p 2 = 1"
    by (simp add: sort_model_def fst_refresh refreshPeers_def Let_def copy_stats_append
        reg_three_def reg_busy_def qStableSort_split qStableSort_short NodeLessThan_def
        Address_def string_compare_def peer1_def peer2_def peer3_def getRowByNodeId_def
        map_insert_def)
  from snapshot_rows_consistent [of "[Sort reg_three Address AscendingOrder, Refresh reg_busy]" reg_free] mem
  have "\<exists>stats. index ?p (getRowByNodeId ?p 2) = Some stats \<and> nodeid stats = 2"
    by blast
  with mem row show ?thesis by blast
qed

text \<open>
  Claim C8. For every node id that is not among the cached records, \<open>getRowByNodeId\<close>
  returns \<open>-1\<close>, in every state the model reaches. In particular, after a \<open>refresh()\<close>
  that got the lock, a node id that the registry no longer lists is not found, whatever
  the model held before.
\<close>

theorem getRowByNodeId_not_found:
  "(nid \<notin> nodeid ` set (cachedNodeStats (run_calls calls (fst (PeerTableModel reg0)))) \<longrightarrow>
      getRowByNodeId (run_calls calls (fst (PeerTableModel reg0))) nid = - 1) \<and>
   (\<not> cs_vNodes_busy reg \<and> nid \<notin> nodeid ` set (vNodes reg) \<longrightarrow>
      getRowByNodeId (fst (refresh reg p)) nid = - 1)"
proof -
  have "set (cachedNodeStats (fst (refresh reg p))) = set (vNodes reg)" if "\<not> cs_vNodes_busy reg"
    using that by (simp add: fst_refresh refreshPeers_free_records set_qStableSort)
  moreover have "index_consistent (fst (refresh reg p))" if "\<not> cs_vNodes_busy reg"
    using that by (simp add: fst_refresh refreshPeers_free_consistent)
  ultimately have "\<not> cs_vNodes_busy reg \<and> nid \<notin> nodeid ` set (vNodes reg) \<longrightarrow>
      getRowByNodeId (fst (refresh reg p)) nid = - 1"
    using consistent_missing [of "fst (refresh reg p)" nid] by simp
  moreover have "nid \<notin> nodeid ` set (cachedNodeStats (run_calls calls (fst (PeerTableModel reg0)))) \<longrightarrow>
      getRowByNodeId (run_calls calls (fst (PeerTableModel reg0))) nid = - 1"
    using consistent_missing [OF reachable_consistent] by blast
  ultimately show ?thesis by blast
qed

theorem getRowByNodeId_not_found_witness:
  "\<not> cs_vNodes_busy reg_free \<and>
   (3 :: NodeId) \<notin> nodeid ` set (vNodes reg_free) \<and>
   getRowByNodeId (fst (PeerTableModel reg_three)) 3 = 2 \<and>
   getRowByNodeId (fst (refresh reg_free (fst (PeerTableModel reg_three)))) 3 = - 1 \<and>
   (3 :: NodeId) \<notin> nodeid ` set (cachedNodeStats
      (run_calls [Refresh reg_free] (fst (PeerTableModel reg_three)))) \<and>
   getRowByNodeId (run_calls [Refresh reg_free] (fst (PeerTableModel reg_three))) 3 = - 1"
proof -
  have free: "\<not> cs_vNodes_busy reg_free" by (simp add: reg_free_def)
  have gone: "(3 :: NodeId) \<notin> nodeid ` set (vNodes reg_free)"
    by (simp add: reg_free_def peer1_def peer2_def)
  have before: "getRowByNodeId (fst (PeerTableModel reg_three)) 3 = 2"
    by (simp add: PeerTableModel_def fst_refresh refreshPeers_def Let_def copy_stats_append
        reg_three_def new_PeerTablePriv_def peer1_def peer2_def peer3_def getRowByNodeId_def
        map_insert_def)
  have gone': "(3 :: NodeId) \<notin> nodeid ` set (cachedNodeStats
      (run_calls [Refresh reg_free] (fst (PeerTableModel reg_three))))"
    by (simp add: fst_refresh refreshPeers_free_records PeerTableModel_def refreshPeers_sort_fields
        new_PeerTablePriv_def reg_free_def peer1_def peer2_def)
  note inst = getRowByNodeId_not_found [of 3 "[Refresh reg_free]" reg_three reg_free
      "fst (PeerTableModel reg_three)"]
  from inst free gone
  have after: "getRowByNodeId (fst (refresh reg_free (fst (PeerTableModel reg_three)))) 3 = - 1"
    by blast
  from inst gone'
  have after': "getRowByNodeId (run_calls [Refresh reg_free] (fst (PeerTableModel reg_three))) 3 = - 1"
    by blast
  from free gone before after gone' after' show ?thesis by blast
qed

text \<open>
  Claim C7. \<open>index\<close> (and \<open>getNodeStats\<close>, which calls it) returns no record for a row
  below zero or at or beyond \<open>size()\<close>, and the record at that position of the cached list
  for every row from zero up to \<open>size() - 1\<close>; the list is read only inside its bounds.
\<close>

theorem index_bounds_checked:
  "(row < 0 \<or> size_priv p \<le> row \<longrightarrow> index p row = None \<and> getNodeStats p row = None) \<and>
   (0 \<le> row \<and> row < size_priv p \<longrightarrow>
      index p row = Some (cachedNodeStats p ! nat row) \<and>
      getNodeStats p row = Some (cachedNodeStats p ! nat row))"
  by (simp add: index_def getNodeStats_def size_priv_def)

theorem index_bounds_checked_witness:
  "size_priv (fst (PeerTableModel reg_free)) = 2 \<and>
   index (fst (PeerTableModel reg_free)) (- 1) = None \<and>
   index (fst (PeerTableModel reg_free)) 2 = None \<and>
   index (fst (PeerTableModel reg_free)) 1 = Some peer2"
proof -
  have sz: "size_priv (fst (PeerTableModel reg_free)) = 2"
    by (simp add: size_priv_def PeerTableModel_def fst_refresh refreshPeers_free_records
        reg_free_def new_PeerTablePriv_def)
  have nth: "cachedNodeStats (fst (PeerTableModel reg_free)) ! nat 1 = peer2"
    by (simp add: PeerTableModel_def fst_refresh refreshPeers_free_records
        reg_free_def new_PeerTablePriv_def)
  show ?thesis
    using index_bounds_checked [of "- 1" "fst (PeerTableModel reg_free)"]
      index_bounds_checked [of 2 "fst (PeerTableModel reg_free)"]
      index_bounds_checked [of 1 "fst (PeerTableModel reg_free)"] sz nth
    by simp
qed

subsection \<open>The comparator\<close>

text \<open>
  Claim C5. For every column and every two records, the descending comparator applied to
  \<open>(a, b)\<close> is the ascending comparator applied to \<open>(b, a)\<close>: the operands are
  swapped, the result is not negated. So two records of which neither is less than the
  other in ascending order are in the same position in descending order: the comparator
  is false both ways. A record is never less than itself, in either order.
\<close>

theorem NodeLessThan_descending_swaps:
  "NodeLessThan column DescendingOrder a b = NodeLessThan column AscendingOrder b a \<and>
   (\<not> NodeLessThan column AscendingOrder a b \<and> \<not> NodeLessThan column AscendingOrder b a) =
   (\<not> NodeLessThan column DescendingOrder a b \<and> \<not> NodeLessThan column DescendingOrder b a) \<and>
   \<not> NodeLessThan column order a a"
  by (auto simp: NodeLessThan_def string_compare_less)

theorem NodeLessThan_descending_swaps_witness:
  "NodeLessThan Ping DescendingOrder peer3 peer1 = False \<and>
   NodeLessThan Ping DescendingOrder peer1 peer3 = True \<and>
   NodeLessThan Ping DescendingOrder peer1 peer2 = False \<and>
   NodeLessThan Ping DescendingOrder peer2 peer1 = False"
  using NodeLessThan_descending_swaps [of Ping peer3 peer1 DescendingOrder]
    NodeLessThan_descending_swaps [of Ping peer1 peer3 DescendingOrder]
    NodeLessThan_descending_swaps [of Ping peer1 peer2 DescendingOrder]
  by (simp add: NodeLessThan_def Ping_def Address_def Subversion_def peer1_def peer2_def peer3_def)

text \<open>
  Claim C6. In ascending order the comparator is, for the column Address, the
  case-sensitive lexicographic order of the two \<open>addrName\<close> strings; for the column
  Subversion, the same order of the two \<open>cleanSubVer\<close> strings; for the column Ping, the
  numeric order of the two \<open>dPingTime\<close> values.
\<close>

theorem NodeLessThan_ascending_columns:
  "NodeLessThan Address AscendingOrder a b = ((addrName a, addrName b) \<in> lexord byte_less) \<and>
   NodeLessThan Subversion AscendingOrder a b = ((cleanSubVer a, cleanSubVer b) \<in> lexord byte_less) \<and>
   NodeLessThan Ping AscendingOrder a b = (dPingTime a < dPingTime b)"
  by (simp add: NodeLessThan_def Address_def Subversion_def Ping_def byte_less_def
      string_compare_lexord)

text \<open>
  The address \<open>Z\<close> of the third peer comes before the address \<open>a\<close> of the second: upper
  case and lower case are not identified.
\<close>

theorem NodeLessThan_ascending_columns_witness:
  "NodeLessThan Address AscendingOrder peer3 peer2 \<and>
   \<not> NodeLessThan Address AscendingOrder peer2 peer3 \<and>
   NodeLessThan Subversion AscendingOrder peer3 peer1 \<and>
   NodeLessThan Ping AscendingOrder peer3 peer1 \<and>
   \<not> NodeLessThan Ping AscendingOrder peer1 peer2"
  using NodeLessThan_ascending_columns [of peer3 peer2]
    NodeLessThan_ascending_columns [of peer2 peer3]
    NodeLessThan_ascending_columns [of peer3 peer1]
    NodeLessThan_ascending_columns [of peer1 peer2]
  by (simp add: byte_less_def peer1_def peer2_def peer3_def)

subsection \<open>The sort of a refresh\<close>

text \<open>
  Claim C4. The sort of a refresh is stable. For every registry, every sort column (any
  \<open>sortColumn\<close> that is not negative) and either order, and for every record \<open>a\<close>:
  the records that compare equal to \<open>a\<close> under the comparator stand in the refreshed
  cache in the order in which the registry listed them. In particular two peers with the
  same ping time, listed as \<open>[a, b]\<close>, stay \<open>[a, b]\<close> after a sort by Ping, ascending.
\<close>

theorem refresh_sort_stable:
  "(\<not> cs_vNodes_busy reg \<and> 0 \<le> sortColumn p \<longrightarrow>
      filter (tied (sortColumn p) (sortOrder p) a) (cachedNodeStats (fst (refresh reg p))) =
      filter (tied (sortColumn p) (sortOrder p) a) (vNodes reg)) \<and>
   (dPingTime a = dPingTime b \<longrightarrow>
      cachedNodeStats
        (fst (sort_model \<lparr>cs_vNodes_busy = False, vNodes = [a, b]\<rparr> Ping AscendingOrder p)) = [a, b])"
proof -
  have "filter (tied_wrt (NodeLessThan c ord) a) (qStableSort (NodeLessThan c ord) xs) =
        filter (tied_wrt (NodeLessThan c ord) a) xs" for c ord xs
    by (rule filter_tied_qStableSort) (rule swo_NodeLessThan)
  then have general: "\<not> cs_vNodes_busy reg \<and> 0 \<le> sortColumn p \<longrightarrow>
      filter (tied (sortColumn p) (sortOrder p) a) (cachedNodeStats (fst (refresh reg p))) =
      filter (tied (sortColumn p) (sortOrder p) a) (vNodes reg)"
    by (simp add: fst_refresh refreshPeers_free_records tied_eq)
  have "dPingTime a = dPingTime b \<longrightarrow>
      cachedNodeStats
        (fst (sort_model \<lparr>cs_vNodes_busy = False, vNodes = [a, b]\<rparr> Ping AscendingOrder p)) = [a, b]"
    by (simp add: sort_model_def fst_refresh refreshPeers_free_records qStableSort_pair
        NodeLessThan_def Ping_def Address_def Subversion_def)
  with general show ?thesis by blast
qed

theorem refresh_sort_stable_witness:
  "\<not> cs_vNodes_busy reg_three \<and>
   0 \<le> sortColumn (new_PeerTablePriv\<lparr>sortColumn := Subversion\<rparr>) \<and>
   filter (tied Subversion AscendingOrder peer2)
     (cachedNodeStats (fst (refresh reg_three (new_PeerTablePriv\<lparr>sortColumn := Subversion\<rparr>)))) =
     [peer1, peer2] \<and>
   dPingTime peer1 = dPingTime peer2 \<and>
   cachedNodeStats (fst (sort_model reg_free Ping AscendingOrder new_PeerTablePriv)) = [peer1, peer2]"
proof -
  have free: "\<not> cs_vNodes_busy reg_three" by (simp add: reg_three_def)
  have col: "0 \<le> sortColumn (new_PeerTablePriv\<lparr>sortColumn := Subversion\<rparr>)"
    by (simp add: Subversion_def)
  have ping: "dPingTime peer1 = dPingTime peer2" by (simp add: peer1_def peer2_def)
  have tie: "filter (tied Subversion AscendingOrder peer2) (vNodes reg_three) = [peer1, peer2]"
    by (simp add: reg_three_def tied_def tied_wrt_def NodeLessThan_def Subversion_def Address_def
        string_compare_def peer1_def peer2_def peer3_def)
  note inst1 = refresh_sort_stable [where reg = reg_three
      and p = "new_PeerTablePriv\<lparr>sortColumn := Subversion\<rparr>" and a = peer2]
  note inst2 = refresh_sort_stable [where p = new_PeerTablePriv and a = peer1 and b = peer2]
  from inst1 free col tie
  have one: "filter (tied Subversion AscendingOrder peer2)
     (cachedNodeStats (fst (refresh reg_three (new_PeerTablePriv\<lparr>sortColumn := Subversion\<rparr>)))) =
     [peer1, peer2]"
    by (simp add: new_PeerTablePriv_def)
  from inst2 ping
  have two: "cachedNodeStats (fst (sort_model reg_free Ping AscendingOrder new_PeerTablePriv)) =
     [peer1, peer2]"
    by (simp add: reg_free_def)
  from free col one ping two show ?thesis by blast
qed

text \<open>
  Claim C9. The constructor leaves \<open>sortColumn\<close> at \<open>-1\<close>, and \<open>refresh()\<close> never
  changes it. With a negative \<open>sortColumn\<close>, a \<open>refresh()\<close> that gets the lock does not
  sort: the cached records are the registry's, in the registry's order.
\<close>

theorem refresh_unsorted_keeps_order:
  "sortColumn (new_PeerTablePriv\<lparr>sortColumn := - 1\<rparr>) = - 1 \<and>
   (\<not> cs_vNodes_busy reg \<longrightarrow>
      cachedNodeStats (fst (PeerTableModel reg)) = vNodes reg \<and>
      sortColumn (fst (PeerTableModel reg)) = - 1) \<and>
   (\<not> cs_vNodes_busy reg \<and> sortColumn p < 0 \<longrightarrow>
      cachedNodeStats (fst (refresh reg p)) = vNodes reg \<and>
      StableSorted \<notin> set (snd (refresh reg p)) \<and>
      sortColumn (fst (refresh reg p)) = sortColumn p)"
  by (simp add: PeerTableModel_def fst_refresh snd_refresh refreshPeers_free_records
      refreshPeers_free_events refreshPeers_sort_fields new_PeerTablePriv_def)

theorem refresh_unsorted_keeps_order_witness:
  "\<not> cs_vNodes_busy reg_three \<and>
   sortColumn (fst (PeerTableModel reg_free)) < 0 \<and>
   cachedNodeStats (fst (PeerTableModel reg_three)) = [peer1, peer2, peer3] \<and>
   cachedNodeStats (fst (refresh reg_three (fst (PeerTableModel reg_free)))) = [peer1, peer2, peer3]"
proof -
  have free: "\<not> cs_vNodes_busy reg_three" by (simp add: reg_three_def)
  have col: "sortColumn (fst (PeerTableModel reg_free)) < 0"
    by (simp add: PeerTableModel_def fst_refresh refreshPeers_sort_fields new_PeerTablePriv_def)
  show ?thesis
    using free col refresh_unsorted_keeps_order [of reg_three "fst (PeerTableModel reg_free)"]
    by (simp add: reg_three_def)
qed

subsection \<open>The layout signals\<close>

text \<open>
  Claim C10. Every \<open>refresh()\<close> emits \<open>layoutAboutToBeChanged\<close> first and
  \<open>layoutChanged\<close> last, whatever \<open>refreshPeers\<close> does in between, and
  \<open>refreshPeers\<close> emits neither. When \<open>cs_vNodes\<close> is busy the two signals are
  emitted around a failed attempt at the lock that changes nothing.
\<close>

theorem refresh_always_notifies:
  "snd (refresh reg p) = [LayoutAboutToBeChanged] @ snd (refreshPeers reg p) @ [LayoutChanged] \<and>
   LayoutAboutToBeChanged \<notin> set (snd (refreshPeers reg p)) \<and>
   LayoutChanged \<notin> set (snd (refreshPeers reg p)) \<and>
   (cs_vNodes_busy reg \<longrightarrow>
      snd (refresh reg p) = [LayoutAboutToBeChanged, TryLockFailed, LayoutChanged] \<and>
      fst (refresh reg p) = p)"
  by (cases "cs_vNodes_busy reg")
    (simp_all add: snd_refresh fst_refresh refreshPeers_busy refreshPeers_free_events)

theorem refresh_always_notifies_witness:
  "cs_vNodes_busy reg_busy \<and>
   snd (refresh reg_busy (fst (PeerTableModel reg_three))) =
     [LayoutAboutToBeChanged, TryLockFailed, LayoutChanged] \<and>
   fst (refresh reg_busy (fst (PeerTableModel reg_three))) = fst (PeerTableModel reg_three)"
proof -
  have busy: "cs_vNodes_busy reg_busy" by (simp add: reg_busy_def)
  note all = refresh_always_notifies [of reg_busy "fst (PeerTableModel reg_three)"]
  from all busy
  have "snd (refresh reg_busy (fst (PeerTableModel reg_three))) =
          [LayoutAboutToBeChanged, TryLockFailed, LayoutChanged] \<and>
        fst (refresh reg_busy (fst (PeerTableModel reg_three))) = fst (PeerTableModel reg_three)"
    by blast
  with busy show ?thesis by blast
qed

subsection \<open>A change of the sort settings while \<open>cs_vNodes\<close> is held elsewhere\<close>

text \<open>
  \<open>sort()\<close> stores the new column and order before it refreshes. When the refresh
  finds \<open>cs_vNodes\<close> busy, the new settings stay, while the cached records and the index
  are still those of the last refresh that got the lock.
\<close>

theorem sort_busy_keeps_records:
  "cs_vNodes_busy reg \<Longrightarrow>
   fst (sort_model reg column order p) = p\<lparr>sortColumn := column, sortOrder := order\<rparr>"
  by (simp add: sort_model_def fst_refresh refreshPeers_busy)

theorem sort_busy_keeps_records_witness:
  "cs_vNodes_busy reg_busy \<and>
   cachedNodeStats (fst (sort_model reg_busy Address AscendingOrder (fst (PeerTableModel reg_free)))) =
     [peer1, peer2] \<and>
   sortColumn (fst (sort_model reg_busy Address AscendingOrder (fst (PeerTableModel reg_free)))) =
     Address"
proof -
  have busy: "cs_vNodes_busy reg_busy" by (simp add: reg_busy_def)
  have "cachedNodeStats (fst (PeerTableModel reg_free)) = [peer1, peer2]"
    by (simp add: PeerTableModel_def fst_refresh refreshPeers_free_records reg_free_def
        new_PeerTablePriv_def)
  then show ?thesis
    using busy sort_busy_keeps_records [OF busy, of Address AscendingOrder
        "fst (PeerTableModel reg_free)"]
    by simp
qed

end
